theory Spec2Isabelle
  imports Main "HOL-Library.AList" "HOL-Library.Multiset"
begin

section \<open>The extraction pipeline of extract\_bag.py\<close>

text \<open>
  A shallow embedding of \<^verbatim>\<open>src/3-pipeline/extract_bag.py\<close>. Python integers are
  \<open>int\<close>, strings are \<open>string\<close>, the dictionaries \<^verbatim>\<open>csv_writers\<close> and
  \<^verbatim>\<open>img_writers\<close> are association lists in insertion order (the \<^verbatim>\<open>finally\<close> block
  iterates over \<^verbatim>\<open>csv_writers.items()\<close>), \<^verbatim>\<open>topic_msg_counts\<close> is a map. Every
  exception is a value of \<open>error\<close>; a function that can raise after it has had an effect
  returns the error together with the state it leaves and the calls it has made.
\<close>

subsection \<open>Data\<close>

datatype error =
    ZeroDivisionError
  | IndexError
  | KeyError string
  | ValueError "string list"
  | HandlerError string
  | BagError string

text \<open>One entry of \<^verbatim>\<open>extraction_config["data_schema"]\<close>.\<close>

record topic_info =
  rosbag_topic :: string
  output_dir :: string
  output_type :: string
  start_idx :: int
  end_idx :: int
  throttle_rate :: int
  extra_options :: "(string \<times> string) list option"

text \<open>A message of the bag: its \<^verbatim>\<open>_type\<close> and its (opaque) content.\<close>

record ros_msg =
  ros_type :: string
  body :: string

text \<open>What \<^verbatim>\<open>bag.read_messages()\<close> yields: topic, message, time stamp.\<close>

type_synonym bag_entry = "string \<times> ros_msg \<times> nat"

text \<open>
  The three functions imported from \<^verbatim>\<open>rosbag_preprocess.data_handler\<close>, a module that
  is not among the sources: they are parameters of the pipeline, and each may raise.
  \<^verbatim>\<open>process_msg_csv\<close> returns a dictionary from field names to (rendered) values,
  \<^verbatim>\<open>process_msg_img\<close> the image and its metadata.
\<close>

record data_handler =
  get_msg_cols :: "string \<Rightarrow> error + string list"
  process_msg_csv :: "string \<Rightarrow> ros_msg \<Rightarrow> nat \<Rightarrow> (string \<times> string) list option
                        \<Rightarrow> error + (string \<times> string) list"
  process_msg_img :: "string \<Rightarrow> ros_msg \<Rightarrow> nat \<Rightarrow> (string \<times> string) list option
                        \<Rightarrow> error + (string \<times> string)"

text \<open>
  The calls the pipeline makes on the outside world, in the order it makes them. A file
  object is named by a number, the count of files opened before it. \<open>Open_w\<close> is
  \<^verbatim>\<open>open(path, 'w', newline='')\<close>, \<open>Open_bag\<close> is \<^verbatim>\<open>rosbag.Bag(path, 'r')\<close>.
\<close>

datatype syscall =
    Mkdir string
  | Open_w nat string
  | WriteHeader nat "string list"
  | WriteRow nat "string list"
  | SaveImg string string string
  | Close nat
  | Open_bag string
  | Close_bag string
  | Print string

text \<open>The values of \<^verbatim>\<open>csv_writers\<close> and \<^verbatim>\<open>img_writers\<close>. The \<^verbatim>\<open>csv.DictWriter\<close> is kept
  as the file it writes to and its \<^verbatim>\<open>fieldnames\<close>.\<close>

record csv_entry =
  csv_file :: nat
  writer :: "string list"
  csv_msg_type :: string

record img_entry =
  directory :: string
  img_msg_type :: string

text \<open>The local variables of \<^verbatim>\<open>extract_single\<close> that the loop changes, the progress bar,
  and the number of files opened so far.\<close>

record state =
  csv_writers :: "(string \<times> csv_entry) list"
  img_writers :: "(string \<times> img_entry) list"
  topic_msg_counts :: "string \<rightharpoonup> int"
  progress :: nat
  opened :: nat

subsection \<open>Strings\<close>

text \<open>\<^verbatim>\<open>str(n)\<close> of a Python integer.\<close>

fun str_nat :: "nat \<Rightarrow> string" where
  "str_nat n =
     (if n < 10 then [''0123456789'' ! n]
      else str_nat (n div 10) @ [''0123456789'' ! (n mod 10)])"

declare str_nat.simps [simp del]

definition str_int :: "int \<Rightarrow> string" where
  "str_int i = (if i < 0 then CHR ''-'' # str_nat (nat (- i)) else str_nat (nat i))"

text \<open>\<^verbatim>\<open>path.split("/")[-1][:-4]\<close>: the last component, without its last four characters.\<close>

definition last_component :: "string \<Rightarrow> string" where
  "last_component p = rev (takeWhile (\<lambda>c. c \<noteq> CHR ''/'') (rev p))"

definition bag_name_of :: "string \<Rightarrow> string" where
  "bag_name_of p = (let s = last_component p in take (length s - 4) s)"

definition startswith :: "string \<Rightarrow> string \<Rightarrow> bool" where
  "startswith s p = (take (length p) s = p)"

definition endswith :: "string \<Rightarrow> string \<Rightarrow> bool" where
  "endswith s p = (length p \<le> length s \<and> drop (length s - length p) s = p)"

subsection \<open>The sampling condition\<close>

text \<open>
  Line 89: \<^verbatim>\<open>(topic_idx >= start_idx) and (topic_idx < end_idx) and
  (topic_idx % throttle_rate == 0)\<close>. The conjunction is evaluated left to right and
  stops at the first false conjunct; \<^verbatim>\<open>%\<close> raises on a zero divisor. Python's \<^verbatim>\<open>%\<close>
  takes the sign of the divisor, as \<open>mod\<close> on \<open>int\<close> does.
\<close>

definition should_keep :: "int \<Rightarrow> int \<Rightarrow> int \<Rightarrow> int \<Rightarrow> error + bool" where
  "should_keep topic_idx start stop throttle =
     (if topic_idx \<ge> start then
        if topic_idx < stop then
          if throttle = 0 then Inl ZeroDivisionError
          else Inr (topic_idx mod throttle = 0)
        else Inr False
      else Inr False)"

text \<open>Lines 164 to 166 of the main program: \<^verbatim>\<open>end_idx == -1\<close> becomes \<^verbatim>\<open>int(9E15)\<close>.\<close>

definition infer_end_idx :: "topic_info \<Rightarrow> topic_info" where
  "infer_end_idx topic_info =
     (if end_idx topic_info = - 1 then topic_info\<lparr>end_idx := 9000000000000000\<rparr>
      else topic_info)"

subsection \<open>The writer of the standard library\<close>

text \<open>
  \<^verbatim>\<open>csv.DictWriter(f, fieldnames)\<close> is created with its defaults,
  \<^verbatim>\<open>restval=''\<close> and \<^verbatim>\<open>extrasaction='raise'\<close>. Its \<^verbatim>\<open>writerow(rowdict)\<close> raises
  \<^verbatim>\<open>ValueError\<close> when \<^verbatim>\<open>rowdict.keys() - fieldnames\<close> is not empty, and otherwise writes
  \<^verbatim>\<open>rowdict.get(key, restval)\<close> for each \<^verbatim>\<open>key\<close> of \<^verbatim>\<open>fieldnames\<close>, in that order.
\<close>

definition dict_to_list :: "string list \<Rightarrow> (string \<times> string) list \<Rightarrow> error + string list" where
  "dict_to_list fieldnames rowdict =
     (let wrong_fields = filter (\<lambda>k. k \<notin> set fieldnames) (map fst rowdict) in
      if wrong_fields \<noteq> [] then Inl (ValueError wrong_fields)
      else Inr (map (\<lambda>key. case map_of rowdict key of Some v \<Rightarrow> v | None \<Rightarrow> []) fieldnames))"

definition writerow :: "csv_entry \<Rightarrow> (string \<times> string) list \<Rightarrow> error option \<times> syscall list" where
  "writerow w rowdict =
     (case dict_to_list (writer w) rowdict of
        Inl e \<Rightarrow> (Some e, [])
      | Inr cells \<Rightarrow> (None, [WriteRow (csv_file w) cells]))"

subsection \<open>One message\<close>

type_synonym outcome = "error option \<times> state \<times> syscall list"

text \<open>Lines 66 and 70: the configured topics, and every counter at zero.\<close>

definition rosbag_topics :: "topic_info list \<Rightarrow> string list" where
  "rosbag_topics data_schema = map rosbag_topic data_schema"

definition init_state :: "topic_info list \<Rightarrow> nat \<Rightarrow> state" where
  "init_state data_schema fd =
     \<lparr>csv_writers = [], img_writers = [],
      topic_msg_counts = map_of (map (\<lambda>topic. (topic, 0)) (rosbag_topics data_schema)),
      progress = 0, opened = fd\<rparr>"

text \<open>Lines 118 to 123: the counter of the topic, whatever the topic, and the progress bar.
  The bare \<^verbatim>\<open>except\<close> catches the \<^verbatim>\<open>KeyError\<close> of a topic that has no counter yet.\<close>

definition bookkeeping :: "string \<Rightarrow> state \<Rightarrow> state" where
  "bookkeeping topic st =
     st\<lparr>topic_msg_counts :=
          (topic_msg_counts st)(topic \<mapsto>
             (case topic_msg_counts st topic of Some c \<Rightarrow> c + 1 | None \<Rightarrow> 1)),
        progress := progress st + 1\<rparr>"

definition csv_path :: "string \<Rightarrow> string \<Rightarrow> topic_info \<Rightarrow> string" where
  "csv_path out bag_name topic_config =
     out @ ''/'' @ bag_name @ ''/'' @ output_dir topic_config @ ''.csv''"

definition img_dir :: "string \<Rightarrow> string \<Rightarrow> topic_info \<Rightarrow> string" where
  "img_dir out bag_name topic_config = out @ ''/'' @ bag_name @ ''/'' @ output_dir topic_config"

definition img_path :: "string \<Rightarrow> string \<Rightarrow> topic_info \<Rightarrow> int \<Rightarrow> string" where
  "img_path out bag_name topic_config idx =
     out @ ''/'' @ bag_name @ ''/'' @ output_dir topic_config @ ''/'' @ str_int idx @ ''.png''"

text \<open>Lines 94 to 102, run when \<^verbatim>\<open>topic not in csv_writers\<close>: the directory, the file, the
  columns (the argument of \<^verbatim>\<open>DictWriter\<close> is evaluated after the file is open), the
  header, and only then the entry of \<^verbatim>\<open>csv_writers\<close>.\<close>

definition create_csv_writer ::
  "data_handler \<Rightarrow> string \<Rightarrow> string \<Rightarrow> topic_info \<Rightarrow> string \<Rightarrow> string \<Rightarrow> state \<Rightarrow> outcome" where
  "create_csv_writer H out bag_name topic_config topic msg_type st =
     (let h = opened st;
          calls = [Mkdir (out @ ''/'' @ bag_name), Open_w h (csv_path out bag_name topic_config)];
          st1 = st\<lparr>opened := Suc h\<rparr>
      in case get_msg_cols H msg_type of
           Inl e \<Rightarrow> (Some e, st1, calls)
         | Inr cols \<Rightarrow>
             (None,
              st1\<lparr>csv_writers :=
                    AList.update topic \<lparr>csv_file = h, writer = cols, csv_msg_type = msg_type\<rparr>
                      (csv_writers st1)\<rparr>,
              calls @ [WriteHeader h cols]))"

text \<open>Lines 93 to 106.\<close>

definition write_csv ::
  "data_handler \<Rightarrow> string \<Rightarrow> string \<Rightarrow> topic_info \<Rightarrow> bag_entry \<Rightarrow> state \<Rightarrow> outcome" where
  "write_csv H out bag_name topic_config entry st =
     (case entry of (topic, msg, time_stamp) \<Rightarrow>
        (case (if map_of (csv_writers st) topic = None
               then create_csv_writer H out bag_name topic_config topic (ros_type msg) st
               else (None, st, [])) of
           (Some e, st1, calls) \<Rightarrow> (Some e, st1, calls)
         | (None, st1, calls) \<Rightarrow>
             (case process_msg_csv H (ros_type msg) msg time_stamp (extra_options topic_config) of
                Inl e \<Rightarrow> (Some e, st1, calls)
              | Inr processed_data \<Rightarrow>
                  (case map_of (csv_writers st1) topic of
                     None \<Rightarrow> (Some (KeyError topic), st1, calls)
                   | Some w \<Rightarrow>
                       (case writerow w processed_data of
                          (r, calls') \<Rightarrow> (r, st1, calls @ calls'))))))"

text \<open>Lines 109 to 115. The file name is read from \<^verbatim>\<open>topic_msg_counts[topic]\<close>.\<close>

definition write_img ::
  "data_handler \<Rightarrow> string \<Rightarrow> string \<Rightarrow> topic_info \<Rightarrow> bag_entry \<Rightarrow> state \<Rightarrow> outcome" where
  "write_img H out bag_name topic_config entry st =
     (case entry of (topic, msg, time_stamp) \<Rightarrow>
        (let (st1, calls) =
               (if map_of (img_writers st) topic = None
                then (st\<lparr>img_writers :=
                            AList.update topic
                              \<lparr>directory = img_dir out bag_name topic_config,
                               img_msg_type = ros_type msg\<rparr> (img_writers st)\<rparr>,
                      [Mkdir (img_dir out bag_name topic_config)])
                else (st, []))
         in case process_msg_img H (ros_type msg) msg time_stamp (extra_options topic_config) of
              Inl e \<Rightarrow> (Some e, st1, calls)
            | Inr (img, img_metadata) \<Rightarrow>
                (case topic_msg_counts st1 topic of
                   None \<Rightarrow> (Some (KeyError topic), st1, calls)
                 | Some c \<Rightarrow>
                     (None, st1,
                      calls @ [SaveImg (img_path out bag_name topic_config c) img img_metadata]))))"

text \<open>Lines 81 to 123, the body of the loop. An exception leaves the body before the
  bookkeeping.\<close>

definition process_msg ::
  "data_handler \<Rightarrow> topic_info list \<Rightarrow> string \<Rightarrow> string \<Rightarrow> state \<Rightarrow> bag_entry \<Rightarrow> outcome" where
  "process_msg H data_schema out bag_name st entry =
     (case entry of (topic, msg, time_stamp) \<Rightarrow>
        if topic \<in> set (rosbag_topics data_schema) then
          (case topic_msg_counts st topic of
             None \<Rightarrow> (Some (KeyError topic), st, [])
           | Some topic_idx \<Rightarrow>
               (case filter (\<lambda>topic_info. rosbag_topic topic_info = topic) data_schema of
                  [] \<Rightarrow> (Some IndexError, st, [])
                | topic_config # _ \<Rightarrow>
                    (case should_keep topic_idx (start_idx topic_config) (end_idx topic_config)
                            (throttle_rate topic_config) of
                       Inl e \<Rightarrow> (Some e, st, [])
                     | Inr False \<Rightarrow> (None, bookkeeping topic st, [])
                     | Inr True \<Rightarrow>
                         if output_type topic_config = ''csv'' then
                           (case write_csv H out bag_name topic_config entry st of
                              (Some e, st1, calls) \<Rightarrow> (Some e, st1, calls)
                            | (None, st1, calls) \<Rightarrow> (None, bookkeeping topic st1, calls))
                         else if output_type topic_config = ''dir_of_imgs'' then
                           (case write_img H out bag_name topic_config entry st of
                              (Some e, st1, calls) \<Rightarrow> (Some e, st1, calls)
                            | (None, st1, calls) \<Rightarrow> (None, bookkeeping topic st1, calls))
                         else (None, bookkeeping topic st, []))))
        else (None, bookkeeping topic st, []))"

subsection \<open>One bag\<close>

text \<open>The \<^verbatim>\<open>for\<close> loop of line 80: the first exception ends it.\<close>

fun read_messages ::
  "data_handler \<Rightarrow> topic_info list \<Rightarrow> string \<Rightarrow> string \<Rightarrow> state \<Rightarrow> bag_entry list \<Rightarrow> outcome" where
  "read_messages H data_schema out bag_name st [] = (None, st, [])"
| "read_messages H data_schema out bag_name st (entry # entries) =
     (case process_msg H data_schema out bag_name st entry of
        (Some e, st1, calls) \<Rightarrow> (Some e, st1, calls)
      | (None, st1, calls) \<Rightarrow>
          (case read_messages H data_schema out bag_name st1 entries of
             (r, st2, calls') \<Rightarrow> (r, st2, calls @ calls')))"

text \<open>The \<^verbatim>\<open>finally\<close> block, lines 125 to 128.\<close>

definition close_all :: "state \<Rightarrow> syscall list" where
  "close_all st = map (\<lambda>(key, val). Close (csv_file val)) (csv_writers st)"

text \<open>
  \<^verbatim>\<open>extract_single\<close>. \<open>bags\<close> is what \<^verbatim>\<open>rosbag.Bag(path, 'r')\<close> gives at a path: an error,
  or the messages of the bag in their order. The result is the exception that leaves the
  function, if any, the number of files opened so far, and the calls made. The
  \<^verbatim>\<open>with\<close> statement closes the bag before the \<^verbatim>\<open>finally\<close> block runs.
\<close>

definition extract_single ::
  "data_handler \<Rightarrow> (string \<Rightarrow> error + bag_entry list) \<Rightarrow> string \<Rightarrow> topic_info list \<Rightarrow> string
     \<Rightarrow> nat \<Rightarrow> error option \<times> nat \<times> syscall list" where
  "extract_single H bags rosbag_abs_path data_schema out fd =
     (let st0 = init_state data_schema fd;
          bag_name = bag_name_of rosbag_abs_path
      in case bags rosbag_abs_path of
           Inl e \<Rightarrow> (Some e, opened st0, [Open_bag rosbag_abs_path] @ close_all st0)
         | Inr entries \<Rightarrow>
             (case read_messages H data_schema out bag_name st0 entries of
                (r, st, calls) \<Rightarrow>
                  (r, opened st,
                   [Open_bag rosbag_abs_path] @ calls @ [Close_bag rosbag_abs_path]
                     @ close_all st)))"

subsection \<open>A directory of bags\<close>

text \<open>An entry of a directory: what \<^verbatim>\<open>file.name\<close> and \<^verbatim>\<open>file.stat().st_size\<close> read,
  and the entries below it when it is a directory.\<close>

datatype fs_node = Node (node_name: string) (st_size: nat) (children: "fs_node list")

text \<open>\<^verbatim>\<open>Path(d).glob('*.bag')\<close>: the pattern has no \<^verbatim>\<open>**\<close>, so it is matched against the
  names of the entries of \<open>d\<close> itself; \<^verbatim>\<open>*\<close> also matches a leading dot.\<close>

definition glob_bag :: "fs_node \<Rightarrow> fs_node list" where
  "glob_bag d = filter (\<lambda>file. endswith (node_name file) ''.bag'') (children d)"

text \<open>Lines 133 to 137. \<^verbatim>\<open>list.sort\<close> is stable, as \<open>sort_key\<close> is. \<^verbatim>\<open>str(file)\<close> is
  the directory, a slash and the name; what \<^verbatim>\<open>Path\<close> does to redundant slashes of the
  directory is left out. \<^verbatim>\<open>bag_names\<close> of line 138 is never read.\<close>

definition list_o_bags :: "string \<Rightarrow> fs_node \<Rightarrow> string list" where
  "list_o_bags rosbag_abs_path d =
     map (\<lambda>file. rosbag_abs_path @ ''/'' @ node_name file)
       (sort_key st_size
          (filter (\<lambda>file. \<not> startswith (node_name file) ''.'') (glob_bag d)))"

text \<open>The loop of lines 141 to 144: no exception of \<^verbatim>\<open>extract_single\<close> is caught.\<close>

fun extract_each ::
  "data_handler \<Rightarrow> (string \<Rightarrow> error + bag_entry list) \<Rightarrow> topic_info list \<Rightarrow> string
     \<Rightarrow> int \<Rightarrow> nat \<Rightarrow> string list \<Rightarrow> error option \<times> nat \<times> syscall list" where
  "extract_each H bags data_schema out idx fd [] = (None, fd, [])"
| "extract_each H bags data_schema out idx fd (rosbag_path # rest) =
     (case extract_single H bags rosbag_path data_schema out fd of
        (Some e, fd1, calls) \<Rightarrow>
          (Some e, fd1, Print (''Extracting bag # '' @ str_int idx @ ''...'') # calls)
      | (None, fd1, calls) \<Rightarrow>
          (case extract_each H bags data_schema out (idx + 1) fd1 rest of
             (r, fd2, calls') \<Rightarrow>
               (r, fd2,
                Print (''Extracting bag # '' @ str_int idx @ ''...'') # calls
                  @ [Print (''...Completed!'' @ [CHR 0x0A, CHR 0x0A])] @ calls')))"

definition extract_all ::
  "data_handler \<Rightarrow> (string \<Rightarrow> error + bag_entry list) \<Rightarrow> fs_node \<Rightarrow> string \<Rightarrow> topic_info list
     \<Rightarrow> string \<Rightarrow> nat \<Rightarrow> error option \<times> nat \<times> syscall list" where
  "extract_all H bags d rosbag_abs_path data_schema out fd =
     extract_each H bags data_schema out 0 fd (list_o_bags rosbag_abs_path d)"

text \<open>Lines 163 to 172 of the main program, after the arguments and the configuration
  are read.\<close>

definition main_extract ::
  "data_handler \<Rightarrow> (string \<Rightarrow> error + bag_entry list) \<Rightarrow> fs_node \<Rightarrow> string \<Rightarrow> topic_info list
     \<Rightarrow> string \<Rightarrow> nat \<Rightarrow> error option \<times> nat \<times> syscall list" where
  "main_extract H bags d bagfile data_schema out fd =
     (let extraction_config = map infer_end_idx data_schema in
      if drop (length bagfile - 4) bagfile = ''.bag''
      then extract_single H bags bagfile extraction_config out fd
      else extract_all H bags d bagfile extraction_config out fd)"

subsection \<open>What the calls do to the files\<close>

text \<open>
  The content of each CSV file, as the rows written to it, and the path behind each open
  file object. \<^verbatim>\<open>open(path, 'w')\<close> creates the file or empties the one that is there;
  a row is written at the end of the file.
\<close>

record fsys =
  contents :: "string \<rightharpoonup> string list list"
  path_of :: "nat \<rightharpoonup> string"

definition append_row :: "fsys \<Rightarrow> nat \<Rightarrow> string list \<Rightarrow> fsys" where
  "append_row fs h row =
     (case path_of fs h of
        None \<Rightarrow> fs
      | Some p \<Rightarrow>
          fs\<lparr>contents :=
               (contents fs)(p \<mapsto> (case contents fs p of None \<Rightarrow> [] | Some rows \<Rightarrow> rows) @ [row])\<rparr>)"

fun apply_call :: "fsys \<Rightarrow> syscall \<Rightarrow> fsys" where
  "apply_call fs (Open_w h p) =
     fs\<lparr>contents := (contents fs)(p \<mapsto> []), path_of := (path_of fs)(h \<mapsto> p)\<rparr>"
| "apply_call fs (WriteHeader h cols) = append_row fs h cols"
| "apply_call fs (WriteRow h cells) = append_row fs h cells"
| "apply_call fs (Close h) = fs\<lparr>path_of := (path_of fs)(h := None)\<rparr>"
| "apply_call fs _ = fs"

definition apply_calls :: "fsys \<Rightarrow> syscall list \<Rightarrow> fsys" where
  "apply_calls fs calls = foldl apply_call fs calls"

subsection \<open>Reading a list of calls\<close>

definition opened_files :: "syscall list \<Rightarrow> nat list" where
  "opened_files calls = concat (map (\<lambda>c. case c of Open_w h p \<Rightarrow> [h] | _ \<Rightarrow> []) calls)"

definition closed_files :: "syscall list \<Rightarrow> nat list" where
  "closed_files calls = concat (map (\<lambda>c. case c of Close h \<Rightarrow> [h] | _ \<Rightarrow> []) calls)"

definition opened_bags :: "syscall list \<Rightarrow> string list" where
  "opened_bags calls = concat (map (\<lambda>c. case c of Open_bag p \<Rightarrow> [p] | _ \<Rightarrow> []) calls)"

definition saved_imgs :: "syscall list \<Rightarrow> string list" where
  "saved_imgs calls = concat (map (\<lambda>c. case c of SaveImg p img m \<Rightarrow> [p] | _ \<Rightarrow> []) calls)"

fun creates_sink :: "syscall \<Rightarrow> bool" where
  "creates_sink (Mkdir p) = True"
| "creates_sink (Open_w h p) = True"
| "creates_sink (WriteHeader h cols) = True"
| "creates_sink _ = False"

subsection \<open>The cursor sequence of the specification\<close>

text \<open>The cursor sequence in the words of the specification: a cursor per topic counts the
  messages seen on the topic; a message of an image topic that the sampling condition
  accepts gives the file named by the cursor.\<close>

fun image_names ::
  "topic_info list \<Rightarrow> string \<Rightarrow> string \<Rightarrow> (string \<Rightarrow> int) \<Rightarrow> bag_entry list \<Rightarrow> string list" where
  "image_names data_schema out bag_name cursor [] = []"
| "image_names data_schema out bag_name cursor ((topic, msg, time_stamp) # rest) =
     (case filter (\<lambda>topic_info. rosbag_topic topic_info = topic) data_schema of
        [] \<Rightarrow> []
      | topic_config # _ \<Rightarrow>
          if output_type topic_config = ''dir_of_imgs''
             \<and> should_keep (cursor topic) (start_idx topic_config) (end_idx topic_config)
                  (throttle_rate topic_config) = Inr True
          then [img_path out bag_name topic_config (cursor topic)]
          else [])
     @ image_names data_schema out bag_name (cursor(topic := cursor topic + 1)) rest"

definition messages_on :: "string \<Rightarrow> bag_entry list \<Rightarrow> int" where
  "messages_on topic entries = int (length (filter (\<lambda>entry. fst entry = topic) entries))"

subsection \<open>Files and the table of writers\<close>

text \<open>The files behind \<^verbatim>\<open>csv_writers\<close> are the files opened since \<open>fd\<close>, but possibly the
  last one.\<close>

definition registered :: "nat \<Rightarrow> state \<Rightarrow> bool" where
  "registered fd st = (fd \<le> opened st \<and> map (\<lambda>(key, val). csv_file val) (csv_writers st) = [fd..<opened st])"

subsection \<open>Example inputs\<close>

text \<open>A handler that knows one message type, a configuration entry with an unbounded end,
  a file system that already holds an output file, and a state in which the sink of the
  topic exists.\<close>

definition ex_handler :: data_handler where
  "ex_handler =
     \<lparr>get_msg_cols = (\<lambda>t. if t = ''Twist'' then Inr [''stamp'', ''vx''] else Inl (HandlerError t)),
      process_msg_csv = (\<lambda>t m ts opts.
         Inr ((''stamp'', str_nat ts) # (if body m = [] then [] else [(''vx'', body m)]))),
      process_msg_img = (\<lambda>t m ts opts. Inr (body m, ''meta''))\<rparr>"

definition ex_csv_topic :: topic_info where
  "ex_csv_topic = \<lparr>rosbag_topic = ''/cmd'', output_dir = ''cmd'', output_type = ''csv'',
      start_idx = 0, end_idx = - 1, throttle_rate = 1, extra_options = None\<rparr>"

definition ex_extra_handler :: data_handler where
  "ex_extra_handler =
     ex_handler\<lparr>process_msg_csv := (\<lambda>t m ts opts. Inr [(''stamp'', str_nat ts), (''wz'', body m)])\<rparr>"

definition ex_old_fs :: fsys where
  "ex_old_fs = \<lparr>contents = [''out/run1/cmd.csv'' \<mapsto> [[''old'', ''header''], [''old'', ''row'']]],
                path_of = Map.empty\<rparr>"

definition ex_sink_state :: state where
  "ex_sink_state =
     \<lparr>csv_writers = [(''/cmd'', \<lparr>csv_file = 0, writer = [''stamp'', ''vx''], csv_msg_type = ''Twist''\<rparr>)],
      img_writers = [], topic_msg_counts = [''/cmd'' \<mapsto> 1], progress = 1, opened = 1\<rparr>"

definition ex_bag_short_row :: "bag_entry list" where
  "ex_bag_short_row =
     [(''/cmd'', \<lparr>ros_type = ''Twist'', body = ''v''\<rparr>, 0),
      (''/cmd'', \<lparr>ros_type = ''Twist'', body = []\<rparr>, 1),
      (''/cmd'', \<lparr>ros_type = ''Twist'', body = ''w''\<rparr>, 2)]"





definition ex_schema :: "topic_info list" where
  "ex_schema = map infer_end_idx
     [\<lparr>rosbag_topic = ''/cmd'', output_dir = ''cmd'', output_type = ''csv'',
       start_idx = 0, end_idx = - 1, throttle_rate = 2, extra_options = None\<rparr>,
      \<lparr>rosbag_topic = ''/cam'', output_dir = ''cam'', output_type = ''dir_of_imgs'',
       start_idx = 1, end_idx = 5, throttle_rate = 1, extra_options = None\<rparr>]"

definition ex_interleaved :: "bag_entry list" where
  "ex_interleaved = concat (map (\<lambda>i.
       [(''/cmd'', \<lparr>ros_type = ''Twist'', body = ''v''\<rparr>, i),
        (''/cam'', \<lparr>ros_type = ''Image'', body = ''px''\<rparr>, i)]) [0, 1, 2, 3, 4, 5])"

definition ex_bag_unknown_type :: "bag_entry list" where
  "ex_bag_unknown_type =
     [(''/cmd'', \<lparr>ros_type = ''Pose'', body = ''v''\<rparr>, 0),
      (''/cmd'', \<lparr>ros_type = ''Twist'', body = ''v''\<rparr>, 1)]"

section \<open>Properties\<close>

subsection \<open>Evaluating the examples\<close>

lemmas eval_defs = extract_all_def list_o_bags_def glob_bag_def endswith_def startswith_def
  extract_single_def init_state_def bag_name_of_def last_component_def
  ex_csv_topic_def ex_handler_def infer_end_idx_def
  process_msg_def rosbag_topics_def should_keep_def bookkeeping_def
  write_csv_def create_csv_writer_def writerow_def dict_to_list_def csv_path_def
  close_all_def Let_def str_nat.simps str_int_def

subsection \<open>The first exception ends the loops\<close>



subsection \<open>Which bags are opened\<close>

lemma opened_bags_Nil [simp]: "opened_bags [] = []"
  by (simp add: opened_bags_def)

lemma opened_bags_Cons [simp]:
  "opened_bags (c # cs) = (case c of Open_bag p \<Rightarrow> [p] | _ \<Rightarrow> []) @ opened_bags cs"
  by (simp add: opened_bags_def)

lemma opened_bags_append [simp]: "opened_bags (xs @ ys) = opened_bags xs @ opened_bags ys"
  by (simp add: opened_bags_def)





lemma opened_bags_close_all [simp]: "opened_bags (close_all st) = []"
  by (simp add: close_all_def opened_bags_def split: prod.splits)




subsection \<open>The sampling condition\<close>

text \<open>
  C2. For a positive throttle rate the condition of line 89 is the conjunction
  \<open>start \<le> cursor\<close>, \<open>cursor < end\<close>, \<open>cursor mod stride = 0\<close> (it never raises), and with
  stride 1 every index from \<open>start\<close> up to \<open>end\<close>, \<open>end\<close> excluded, is kept.
\<close>

theorem should_keep_iff:
  "0 < stride \<Longrightarrow>
     should_keep cursor start stop stride
       = Inr (cursor \<ge> start \<and> cursor < stop \<and> cursor mod stride = 0)
     \<and> (start \<le> cursor \<and> cursor < stop \<longrightarrow> should_keep cursor start stop 1 = Inr True)"
  by (simp add: should_keep_def)

theorem should_keep_iff_witness:
  "(0::int) < 2 \<and> should_keep 4 0 10 2 = Inr True \<and> should_keep 5 0 10 2 = Inr False
     \<and> should_keep 10 0 10 2 = Inr False \<and> should_keep 7 3 10 1 = Inr True"
  using should_keep_iff [of 2 4 0 10] should_keep_iff [of 2 5 0 10]
    should_keep_iff [of 2 10 0 10] should_keep_iff [of 2 7 3 10]
  by simp

subsection \<open>The unbounded end\<close>

text \<open>
  C4, as the code has it. An entry with \<open>end_idx = -1\<close> gets the end \<open>9000000000000000\<close>:
  with a positive throttle rate a cursor is eligible exactly when it is at least
  \<open>start_idx\<close>, below \<open>9000000000000000\<close>, and a multiple of the throttle rate.
\<close>

theorem unbounded_end_below_sentinel:
  "end_idx topic_info = - 1 \<Longrightarrow> 0 < throttle_rate topic_info \<Longrightarrow>
     should_keep cursor (start_idx (infer_end_idx topic_info))
        (end_idx (infer_end_idx topic_info)) (throttle_rate (infer_end_idx topic_info))
      = Inr (start_idx topic_info \<le> cursor \<and> cursor < 9000000000000000
              \<and> cursor mod throttle_rate topic_info = 0)"
  by (simp add: infer_end_idx_def should_keep_def)

theorem unbounded_end_below_sentinel_witness:
  "end_idx ex_csv_topic = - 1 \<and> 0 < throttle_rate ex_csv_topic
   \<and> should_keep 123456789 (start_idx (infer_end_idx ex_csv_topic))
        (end_idx (infer_end_idx ex_csv_topic)) (throttle_rate (infer_end_idx ex_csv_topic))
      = Inr True"
  using unbounded_end_below_sentinel [of ex_csv_topic 123456789]
  by (simp add: ex_csv_topic_def)

text \<open>The cursor \<open>9000000000000000\<close> itself, with start 0 and throttle rate 1, is dropped: the
  translated end is a finite number that the comparison of line 89 sees.\<close>

theorem unbounded_end_counterexample:
  "end_idx ex_csv_topic = - 1
   \<and> should_keep 9000000000000000 (start_idx (infer_end_idx ex_csv_topic))
        (end_idx (infer_end_idx ex_csv_topic)) (throttle_rate (infer_end_idx ex_csv_topic))
      = Inr False"
  by (simp add: ex_csv_topic_def infer_end_idx_def should_keep_def)

subsection \<open>Rows and columns\<close>

text \<open>
  C6, as the code has it. For an accepted message of a \<open>csv\<close> topic whose sink \<open>w\<close> exists
  or is created by this message: when every key of the row is a column of the sink, the
  row is written in column order, with the empty string for each column the row lacks;
  when some key is not a column, \<open>ValueError\<close> is raised with those keys, nothing is
  written, the counter is not incremented, and the loop ends there whatever follows.
\<close>

theorem writerow_fields:
  assumes "filter (\<lambda>topic_info. rosbag_topic topic_info = topic) data_schema = topic_config # others"
    and "topic_msg_counts st topic = Some c"
    and "should_keep c (start_idx topic_config) (end_idx topic_config) (throttle_rate topic_config)
           = Inr True"
    and "output_type topic_config = ''csv''"
    and "(map_of (csv_writers st) topic = Some w \<and> st1 = st \<and> pre = [])
         \<or> (map_of (csv_writers st) topic = None \<and> get_msg_cols H (ros_type msg) = Inr cols
            \<and> w = \<lparr>csv_file = opened st, writer = cols, csv_msg_type = ros_type msg\<rparr>
            \<and> st1 = st\<lparr>opened := Suc (opened st),
                       csv_writers := AList.update topic w (csv_writers st)\<rparr>
            \<and> pre = [Mkdir (out @ ''/'' @ bag_name),
                      Open_w (opened st) (csv_path out bag_name topic_config),
                      WriteHeader (opened st) cols])"
    and "process_msg_csv H (ros_type msg) msg time_stamp (extra_options topic_config) = Inr rowdict"
  shows "if set (map fst rowdict) \<subseteq> set (writer w)
         then process_msg H data_schema out bag_name st (topic, msg, time_stamp)
                = (None, bookkeeping topic st1,
                   pre @ [WriteRow (csv_file w)
                      (map (\<lambda>key. case map_of rowdict key of Some v \<Rightarrow> v | None \<Rightarrow> []) (writer w))])
         else process_msg H data_schema out bag_name st (topic, msg, time_stamp)
                = (Some (ValueError (filter (\<lambda>k. k \<notin> set (writer w)) (map fst rowdict))), st1, pre)
              \<and> read_messages H data_schema out bag_name st ((topic, msg, time_stamp) # rest)
                = (Some (ValueError (filter (\<lambda>k. k \<notin> set (writer w)) (map fst rowdict))), st1, pre)"
proof -
  have conf: "topic \<in> set (rosbag_topics data_schema)"
  proof -
    have "topic_config \<in> set (filter (\<lambda>topic_info. rosbag_topic topic_info = topic) data_schema)"
      using assms(1) by simp
    then show ?thesis by (auto simp: rosbag_topics_def)
  qed
  have wrong: "(filter (\<lambda>k. k \<notin> set (writer w)) (map fst rowdict) = [])
                 = (set (map fst rowdict) \<subseteq> set (writer w))"
    by (auto simp: filter_empty_conv)
  from assms(5) show ?thesis
  proof (elim disjE conjE)
    assume "map_of (csv_writers st) topic = Some w" "st1 = st" "pre = []"
    then show ?thesis
      using assms(1-4,6) conf wrong
      by (simp add: process_msg_def write_csv_def writerow_def dict_to_list_def Let_def)
  next
    assume a: "map_of (csv_writers st) topic = None" "get_msg_cols H (ros_type msg) = Inr cols"
      "w = \<lparr>csv_file = opened st, writer = cols, csv_msg_type = ros_type msg\<rparr>"
      "st1 = st\<lparr>opened := Suc (opened st), csv_writers := AList.update topic w (csv_writers st)\<rparr>"
      "pre = [Mkdir (out @ ''/'' @ bag_name),
                      Open_w (opened st) (csv_path out bag_name topic_config),
                      WriteHeader (opened st) cols]"
    have wrong': "(filter (\<lambda>k. k \<notin> set cols) (map fst rowdict) = [])
                 = (set (map fst rowdict) \<subseteq> set cols)"
      by (auto simp: filter_empty_conv)
    show ?thesis
      using a assms(1-4,6) conf wrong'
      by (simp add: process_msg_def write_csv_def create_csv_writer_def writerow_def
            dict_to_list_def Let_def update_conv')
  qed
qed

theorem writerow_fields_witness:
  "process_msg ex_handler [infer_end_idx ex_csv_topic] ''out'' ''run1'' ex_sink_state
      (''/cmd'', \<lparr>ros_type = ''Twist'', body = []\<rparr>, 1)
     = (None, bookkeeping ''/cmd'' ex_sink_state, [WriteRow 0 [''1'', '''']])
   \<and> read_messages ex_extra_handler [infer_end_idx ex_csv_topic] ''out'' ''run1'' ex_sink_state
      [(''/cmd'', \<lparr>ros_type = ''Twist'', body = ''v''\<rparr>, 1),
       (''/cmd'', \<lparr>ros_type = ''Twist'', body = ''v''\<rparr>, 2)]
     = (Some (ValueError [''wz'']), ex_sink_state, [])"
  using writerow_fields [where topic = "''/cmd''" and data_schema = "[infer_end_idx ex_csv_topic]"
      and topic_config = "infer_end_idx ex_csv_topic" and others = "[]" and st = ex_sink_state
      and c = 1 and w = "\<lparr>csv_file = 0, writer = [''stamp'', ''vx''], csv_msg_type = ''Twist''\<rparr>"
      and ?st1.0 = ex_sink_state and pre = "[]" and H = ex_handler
      and msg = "\<lparr>ros_type = ''Twist'', body = []\<rparr>" and cols = "[]" and out = "''out''"
      and bag_name = "''run1''" and time_stamp = 1 and rowdict = "[(''stamp'', ''1'')]"
      and rest = "[]"]
    writerow_fields [where topic = "''/cmd''" and data_schema = "[infer_end_idx ex_csv_topic]"
      and topic_config = "infer_end_idx ex_csv_topic" and others = "[]" and st = ex_sink_state
      and c = 1 and w = "\<lparr>csv_file = 0, writer = [''stamp'', ''vx''], csv_msg_type = ''Twist''\<rparr>"
      and ?st1.0 = ex_sink_state and pre = "[]" and H = ex_extra_handler
      and msg = "\<lparr>ros_type = ''Twist'', body = ''v''\<rparr>" and cols = "[]" and out = "''out''"
      and bag_name = "''run1''" and time_stamp = 1
      and rowdict = "[(''stamp'', ''1''), (''wz'', ''v'')]"
      and rest = "[(''/cmd'', \<lparr>ros_type = ''Twist'', body = ''v''\<rparr>, 2)]"]
  by (simp add: ex_csv_topic_def infer_end_idx_def ex_sink_state_def ex_handler_def
        ex_extra_handler_def should_keep_def str_nat.simps)

text \<open>A bag whose second message gives a row without the column \<open>vx\<close>: no exception, the
  row is written with an empty cell, and the third message is processed.\<close>

theorem short_row_counterexample:
  "process_msg_csv ex_handler ''Twist'' \<lparr>ros_type = ''Twist'', body = []\<rparr> 1 None
      = Inr [(''stamp'', ''1'')]
   \<and> get_msg_cols ex_handler ''Twist'' = Inr [''stamp'', ''vx'']
   \<and> set (map fst [(''stamp'', ''1'')]) \<noteq> set [''stamp'', ''vx'']
   \<and> extract_single ex_handler (\<lambda>p. Inr ex_bag_short_row) ''/data/run1.bag''
        [infer_end_idx ex_csv_topic] ''out'' 0
      = (None, 1,
         [Open_bag ''/data/run1.bag'', Mkdir ''out/run1'', Open_w 0 ''out/run1/cmd.csv'',
          WriteHeader 0 [''stamp'', ''vx''], WriteRow 0 [''0'', ''v''], WriteRow 0 [''1'', ''''],
          WriteRow 0 [''2'', ''w''], Close_bag ''/data/run1.bag'', Close 0])"
  by (simp add: extract_single_def init_state_def bag_name_of_def last_component_def
      ex_csv_topic_def ex_handler_def ex_bag_short_row_def infer_end_idx_def
      process_msg_def rosbag_topics_def should_keep_def bookkeeping_def
      write_csv_def create_csv_writer_def writerow_def dict_to_list_def csv_path_def
      close_all_def Let_def str_nat.simps)

subsection \<open>A topic that is not configured\<close>

text \<open>
  C9. A message whose topic is not configured never raises and makes no call; it leaves
  both sink tables, the number of opened files and the counter of every other topic (so
  of every configured topic) as they were. The progress bar advances by one.
\<close>

theorem unconfigured_topic_skipped:
  "topic \<notin> set (rosbag_topics data_schema) \<Longrightarrow>
     (case process_msg H data_schema out bag_name st (topic, msg, time_stamp) of
        (r, st1, calls) \<Rightarrow>
          r = None \<and> calls = []
          \<and> csv_writers st1 = csv_writers st \<and> img_writers st1 = img_writers st
          \<and> opened st1 = opened st
          \<and> (\<forall>t. t \<noteq> topic \<longrightarrow> topic_msg_counts st1 t = topic_msg_counts st t)
          \<and> (\<forall>t \<in> set (rosbag_topics data_schema). topic_msg_counts st1 t = topic_msg_counts st t)
          \<and> progress st1 = progress st + 1)"
  by (auto simp: process_msg_def bookkeeping_def)

theorem unconfigured_topic_skipped_witness:
  "''/tf'' \<notin> set (rosbag_topics [infer_end_idx ex_csv_topic])
   \<and> (case process_msg ex_handler [infer_end_idx ex_csv_topic] ''out'' ''run1'' ex_sink_state
             (''/tf'', \<lparr>ros_type = ''TF'', body = ''x''\<rparr>, 5) of
        (r, st1, calls) \<Rightarrow>
          r = None \<and> calls = [] \<and> csv_writers st1 = csv_writers ex_sink_state
          \<and> img_writers st1 = [] \<and> topic_msg_counts st1 ''/cmd'' = Some 1)"
  using unconfigured_topic_skipped [where topic = "''/tf''"
      and data_schema = "[infer_end_idx ex_csv_topic]" and H = ex_handler and out = "''out''"
      and bag_name = "''run1''" and st = ex_sink_state
      and msg = "\<lparr>ros_type = ''TF'', body = ''x''\<rparr>" and time_stamp = 5]
  by (simp add: rosbag_topics_def infer_end_idx_def ex_csv_topic_def ex_sink_state_def
        split: prod.splits)

subsection \<open>Opening the output file\<close>

text \<open>
  C10. When the first accepted message of a \<open>csv\<close> topic creates the sink, the calls are
  the directory, the file opened for writing, the header and the row; whatever the file
  system held at the path before, the file then holds exactly the header and the row.
\<close>

theorem create_truncates:
  "map_of (csv_writers st) topic = None \<Longrightarrow>
   get_msg_cols H (ros_type msg) = Inr cols \<Longrightarrow>
   process_msg_csv H (ros_type msg) msg time_stamp (extra_options topic_config) = Inr rowdict \<Longrightarrow>
   dict_to_list cols rowdict = Inr cells \<Longrightarrow>
   (case write_csv H out bag_name topic_config (topic, msg, time_stamp) st of
      (r, st1, calls) \<Rightarrow>
        r = None
        \<and> calls = [Mkdir (out @ ''/'' @ bag_name),
                    Open_w (opened st) (csv_path out bag_name topic_config),
                    WriteHeader (opened st) cols, WriteRow (opened st) cells]
        \<and> contents (apply_calls fs calls) (csv_path out bag_name topic_config)
            = Some [cols, cells])"
  by (simp add: write_csv_def create_csv_writer_def Let_def update_conv' writerow_def
        apply_calls_def append_row_def)

theorem create_truncates_witness:
  "contents ex_old_fs ''out/run1/cmd.csv'' = Some [[''old'', ''header''], [''old'', ''row'']]
   \<and> (case write_csv ex_handler ''out'' ''run1'' ex_csv_topic
            (''/cmd'', \<lparr>ros_type = ''Twist'', body = ''v''\<rparr>, 7) (init_state [ex_csv_topic] 0) of
      (r, st1, calls) \<Rightarrow>
        r = None \<and>
        contents (apply_calls ex_old_fs calls) ''out/run1/cmd.csv''
            = Some [[''stamp'', ''vx''], [''7'', ''v'']])"
  using create_truncates [of "init_state [ex_csv_topic] 0" "''/cmd''" ex_handler
      "\<lparr>ros_type = ''Twist'', body = ''v''\<rparr>" "[''stamp'', ''vx'']" 7 ex_csv_topic
      "[(''stamp'', ''7''), (''vx'', ''v'')]" "[''7'', ''v'']" "''out''" "''run1''" ex_old_fs]
  by (simp add: init_state_def ex_handler_def ex_csv_topic_def dict_to_list_def csv_path_def
        str_nat.simps ex_old_fs_def split: prod.splits)

subsection \<open>A bag that fails\<close>




subsection \<open>The order of the bags\<close>




subsection \<open>The sink tables\<close>

lemma configured_topic:
  "filter (\<lambda>topic_info. rosbag_topic topic_info = topic) data_schema = topic_config # others \<Longrightarrow>
     topic \<in> set (rosbag_topics data_schema)"
proof -
  assume a: "filter (\<lambda>topic_info. rosbag_topic topic_info = topic) data_schema = topic_config # others"
  have "topic_config \<in> set (filter (\<lambda>topic_info. rosbag_topic topic_info = topic) data_schema)"
    using a by simp
  then show ?thesis by (auto simp: rosbag_topics_def)
qed

lemma bookkeeping_fields [simp]:
  "csv_writers (bookkeeping topic st) = csv_writers st"
  "img_writers (bookkeeping topic st) = img_writers st"
  "opened (bookkeeping topic st) = opened st"
  by (simp_all add: bookkeeping_def)

text \<open>The ways through the body of the loop.\<close>

lemma process_msg_cases:
  assumes "process_msg H data_schema out bag_name st entry = (r, st1, calls)"
  shows "(r \<noteq> None \<and> st1 = st \<and> calls = [])
       \<or> (r = None \<and> st1 = bookkeeping (fst entry) st \<and> calls = [])
       \<or> (\<exists>topic_config st0.
             (write_csv H out bag_name topic_config entry st = (r, st0, calls)
              \<or> write_img H out bag_name topic_config entry st = (r, st0, calls))
             \<and> (if r = None then st1 = bookkeeping (fst entry) st0 else st1 = st0))"
proof -
  obtain topic msg time_stamp where e: "entry = (topic, msg, time_stamp)"
    by (cases entry) auto
  show ?thesis
  proof (cases "topic \<in> set (rosbag_topics data_schema)")
    case False
    then show ?thesis using assms e by (auto simp: process_msg_def)
  next
    case True
    show ?thesis
    proof (cases "topic_msg_counts st topic")
      case None
      then show ?thesis using assms e True by (auto simp: process_msg_def)
    next
      case (Some topic_idx)
      show ?thesis
      proof (cases "filter (\<lambda>topic_info. rosbag_topic topic_info = topic) data_schema")
        case Nil
        then show ?thesis using assms e True Some by (auto simp: process_msg_def)
      next
        case (Cons topic_config others)
        show ?thesis
        proof (cases "should_keep topic_idx (start_idx topic_config) (end_idx topic_config)
                        (throttle_rate topic_config)")
          case (Inl err)
          then show ?thesis using assms e True Some Cons by (auto simp: process_msg_def)
        next
          case (Inr keep)
          show ?thesis
          proof (cases keep)
            case False
            then show ?thesis using assms e True Some Cons Inr by (auto simp: process_msg_def)
          next
            case k: True
            consider (csv) "output_type topic_config = ''csv''"
              | (img) "output_type topic_config \<noteq> ''csv''" "output_type topic_config = ''dir_of_imgs''"
              | (other) "output_type topic_config \<noteq> ''csv''" "output_type topic_config \<noteq> ''dir_of_imgs''"
              by blast
            then show ?thesis
            proof cases
              case csv
              obtain r0 st0 calls0 where
                w: "write_csv H out bag_name topic_config entry st = (r0, st0, calls0)"
                by (cases "write_csv H out bag_name topic_config entry st") auto
              have "r = r0 \<and> calls = calls0
                    \<and> (if r = None then st1 = bookkeeping topic st0 else st1 = st0)"
                using assms e True Some Cons Inr k csv w
                by (cases r0) (auto simp: process_msg_def)
              then show ?thesis using w e by auto
            next
              case img
              obtain r0 st0 calls0 where
                w: "write_img H out bag_name topic_config entry st = (r0, st0, calls0)"
                by (cases "write_img H out bag_name topic_config entry st") auto
              have "r = r0 \<and> calls = calls0
                    \<and> (if r = None then st1 = bookkeeping topic st0 else st1 = st0)"
                using assms e True Some Cons Inr k img w
                by (cases r0) (auto simp: process_msg_def)
              then show ?thesis using w e by auto
            next
              case other
              then show ?thesis using assms e True Some Cons Inr k by (auto simp: process_msg_def)
            qed
          qed
        qed
      qed
    qed
  qed
qed


lemma process_msg_configured:
  assumes "filter (\<lambda>topic_info. rosbag_topic topic_info = topic) data_schema = topic_config # others"
  shows "process_msg H data_schema out bag_name st (topic, msg, time_stamp) =
     (case topic_msg_counts st topic of
        None \<Rightarrow> (Some (KeyError topic), st, [])
      | Some topic_idx \<Rightarrow>
          (case should_keep topic_idx (start_idx topic_config) (end_idx topic_config)
                  (throttle_rate topic_config) of
             Inl e \<Rightarrow> (Some e, st, [])
           | Inr False \<Rightarrow> (None, bookkeeping topic st, [])
           | Inr True \<Rightarrow>
               if output_type topic_config = ''csv'' then
                 (case write_csv H out bag_name topic_config (topic, msg, time_stamp) st of
                    (Some e, st1, calls) \<Rightarrow> (Some e, st1, calls)
                  | (None, st1, calls) \<Rightarrow> (None, bookkeeping topic st1, calls))
               else if output_type topic_config = ''dir_of_imgs'' then
                 (case write_img H out bag_name topic_config (topic, msg, time_stamp) st of
                    (Some e, st1, calls) \<Rightarrow> (Some e, st1, calls)
                  | (None, st1, calls) \<Rightarrow> (None, bookkeeping topic st1, calls))
               else (None, bookkeeping topic st, [])))"
  using assms configured_topic [OF assms]
  by (simp add: process_msg_def split: option.splits)

text \<open>An entry of a sink table stays as it is.\<close>

lemma write_csv_keeps:
  "write_csv H out bag_name topic_config entry st = (r, st1, calls) \<Longrightarrow>
     img_writers st1 = img_writers st
     \<and> (map_of (csv_writers st) t = Some w \<longrightarrow> map_of (csv_writers st1) t = Some w)"
  by (auto simp: write_csv_def create_csv_writer_def writerow_def Let_def update_conv'
      split: prod.splits option.splits sum.splits if_splits)

lemma write_img_keeps:
  "write_img H out bag_name topic_config entry st = (r, st1, calls) \<Longrightarrow>
     csv_writers st1 = csv_writers st \<and> opened st1 = opened st
     \<and> (map_of (img_writers st) t = Some iw \<longrightarrow> map_of (img_writers st1) t = Some iw)"
  by (auto simp: write_img_def Let_def update_conv'
      split: prod.splits option.splits sum.splits if_splits)

lemma process_msg_keeps:
  assumes "process_msg H data_schema out bag_name st entry = (r, st1, calls)"
  shows "(map_of (csv_writers st) t = Some w \<longrightarrow> map_of (csv_writers st1) t = Some w)
     \<and> (map_of (img_writers st) t = Some iw \<longrightarrow> map_of (img_writers st1) t = Some iw)"
  using process_msg_cases [OF assms]
proof (elim disjE exE conjE)
  fix topic_config st0
  assume w: "write_csv H out bag_name topic_config entry st = (r, st0, calls)"
    and s: "if r = None then st1 = bookkeeping (fst entry) st0 else st1 = st0"
  from s have "csv_writers st1 = csv_writers st0" "img_writers st1 = img_writers st0"
    by (auto split: if_splits)
  then show ?thesis using write_csv_keeps [OF w, of t w] by simp
next
  fix topic_config st0
  assume w: "write_img H out bag_name topic_config entry st = (r, st0, calls)"
    and s: "if r = None then st1 = bookkeeping (fst entry) st0 else st1 = st0"
  from s have "csv_writers st1 = csv_writers st0" "img_writers st1 = img_writers st0"
    by (auto split: if_splits)
  then show ?thesis using write_img_keeps [OF w, of t iw] by simp
qed simp_all

lemma read_messages_keeps:
  "read_messages H data_schema out bag_name st entries = (r, st1, calls) \<Longrightarrow>
     (map_of (csv_writers st) t = Some w \<longrightarrow> map_of (csv_writers st1) t = Some w)
     \<and> (map_of (img_writers st) t = Some iw \<longrightarrow> map_of (img_writers st1) t = Some iw)"
proof (induction entries arbitrary: st r st1 calls)
  case Nil
  then show ?case by simp
next
  case (Cons entry entries)
  obtain r0 st0 calls0 where
    p: "process_msg H data_schema out bag_name st entry = (r0, st0, calls0)"
    by (cases "process_msg H data_schema out bag_name st entry") auto
  note k = process_msg_keeps [OF p, of t w iw]
  show ?case
  proof (cases r0)
    case (Some e)
    then have "st1 = st0" using Cons.prems p by simp
    then show ?thesis using k by simp
  next
    case None
    obtain r2 st2 calls2 where
      q: "read_messages H data_schema out bag_name st0 entries = (r2, st2, calls2)"
      by (cases "read_messages H data_schema out bag_name st0 entries") auto
    have "st1 = st2" using Cons.prems p q None by simp
    then show ?thesis using Cons.IH [OF q] k by simp
  qed
qed

text \<open>An accepted message that is processed leaves a sink for its topic.\<close>

lemma write_csv_has_sink:
  "write_csv H out bag_name topic_config (topic, msg, time_stamp) st = (None, st1, calls) \<Longrightarrow>
     map_of (csv_writers st1) topic \<noteq> None"
  by (auto simp: write_csv_def create_csv_writer_def writerow_def Let_def update_conv'
      split: prod.splits option.splits sum.splits if_splits)

lemma write_img_has_sink:
  "write_img H out bag_name topic_config (topic, msg, time_stamp) st = (None, st1, calls) \<Longrightarrow>
     map_of (img_writers st1) topic \<noteq> None"
  by (auto simp: write_img_def Let_def update_conv'
      split: prod.splits option.splits sum.splits if_splits)

lemma accepted_has_sink:
  assumes "filter (\<lambda>topic_info. rosbag_topic topic_info = topic) data_schema = topic_config # others"
    and "topic_msg_counts st topic = Some c"
    and "should_keep c (start_idx topic_config) (end_idx topic_config) (throttle_rate topic_config)
           = Inr True"
    and "process_msg H data_schema out bag_name st (topic, msg, time_stamp) = (None, st1, calls)"
  shows "(output_type topic_config = ''csv'' \<longrightarrow> map_of (csv_writers st1) topic \<noteq> None)
       \<and> (output_type topic_config = ''dir_of_imgs'' \<longrightarrow> map_of (img_writers st1) topic \<noteq> None)"
proof (intro conjI impI)
  assume k: "output_type topic_config = ''csv''"
  obtain r0 st0 calls0 where
    w: "write_csv H out bag_name topic_config (topic, msg, time_stamp) st = (r0, st0, calls0)"
    by (cases "write_csv H out bag_name topic_config (topic, msg, time_stamp) st") auto
  have "r0 = None \<and> csv_writers st1 = csv_writers st0"
    using assms(2-4) k w unfolding process_msg_configured [OF assms(1)]
    by (cases r0) auto
  then show "map_of (csv_writers st1) topic \<noteq> None"
    using write_csv_has_sink [of H out bag_name topic_config topic msg time_stamp st st0 calls0] w
    by simp
next
  assume k: "output_type topic_config = ''dir_of_imgs''"
  obtain r0 st0 calls0 where
    w: "write_img H out bag_name topic_config (topic, msg, time_stamp) st = (r0, st0, calls0)"
    by (cases "write_img H out bag_name topic_config (topic, msg, time_stamp) st") auto
  have "r0 = None \<and> img_writers st1 = img_writers st0"
    using assms(2-4) k w unfolding process_msg_configured [OF assms(1)]
    by (cases r0) auto
  then show "map_of (img_writers st1) topic \<noteq> None"
    using write_img_has_sink [of H out bag_name topic_config topic msg time_stamp st st0 calls0] w
    by simp
qed

text \<open>A message whose topic has its sink creates nothing.\<close>

lemma write_csv_with_sink:
  "map_of (csv_writers st) topic = Some w \<Longrightarrow>
   write_csv H out bag_name topic_config (topic, msg, time_stamp) st = (r, st1, calls) \<Longrightarrow>
     st1 = st \<and> (\<forall>c \<in> set calls. \<exists>cells. c = WriteRow (csv_file w) cells)"
  by (auto simp: write_csv_def writerow_def split: option.splits sum.splits)

lemma write_img_with_sink:
  "map_of (img_writers st) topic = Some iw \<Longrightarrow>
   write_img H out bag_name topic_config (topic, msg, time_stamp) st = (r, st1, calls) \<Longrightarrow>
     st1 = st \<and> (\<forall>c \<in> set calls. \<exists>i img img_metadata.
             c = SaveImg (img_path out bag_name topic_config i) img img_metadata)"
  by (auto simp: write_img_def split: option.splits sum.splits prod.splits)

lemma with_sink:
  assumes "filter (\<lambda>topic_info. rosbag_topic topic_info = topic) data_schema = topic_config # others"
    and "process_msg H data_schema out bag_name st (topic, msg, time_stamp) = (r, st1, calls)"
  shows "output_type topic_config = ''csv'' \<Longrightarrow> map_of (csv_writers st) topic = Some w \<Longrightarrow>
           csv_writers st1 = csv_writers st \<and> img_writers st1 = img_writers st
           \<and> opened st1 = opened st
           \<and> (\<forall>c \<in> set calls. \<exists>cells. c = WriteRow (csv_file w) cells)"
    and "output_type topic_config = ''dir_of_imgs'' \<Longrightarrow> map_of (img_writers st) topic = Some iw \<Longrightarrow>
           csv_writers st1 = csv_writers st \<and> img_writers st1 = img_writers st
           \<and> opened st1 = opened st
           \<and> (\<forall>c \<in> set calls. \<exists>i img img_metadata.
                 c = SaveImg (img_path out bag_name topic_config i) img img_metadata)"
proof -
  assume k: "output_type topic_config = ''csv''" and s: "map_of (csv_writers st) topic = Some w"
  obtain r0 st0 calls0 where
    w: "write_csv H out bag_name topic_config (topic, msg, time_stamp) st = (r0, st0, calls0)"
    by (cases "write_csv H out bag_name topic_config (topic, msg, time_stamp) st") auto
  note ws = write_csv_with_sink [OF s w]
  show "csv_writers st1 = csv_writers st \<and> img_writers st1 = img_writers st
           \<and> opened st1 = opened st
           \<and> (\<forall>c \<in> set calls. \<exists>cells. c = WriteRow (csv_file w) cells)"
    using assms(2) k w ws unfolding process_msg_configured [OF assms(1)]
    by (cases r0) (auto split: option.splits sum.splits bool.splits)
next
  assume k: "output_type topic_config = ''dir_of_imgs''"
    and s: "map_of (img_writers st) topic = Some iw"
  obtain r0 st0 calls0 where
    w: "write_img H out bag_name topic_config (topic, msg, time_stamp) st = (r0, st0, calls0)"
    by (cases "write_img H out bag_name topic_config (topic, msg, time_stamp) st") auto
  note ws = write_img_with_sink [OF s w]
  show "csv_writers st1 = csv_writers st \<and> img_writers st1 = img_writers st
           \<and> opened st1 = opened st
           \<and> (\<forall>c \<in> set calls. \<exists>i img img_metadata.
                 c = SaveImg (img_path out bag_name topic_config i) img img_metadata)"
    using assms(2) k w ws unfolding process_msg_configured [OF assms(1)]
    by (cases r0) (auto split: option.splits sum.splits bool.splits)
qed

subsection \<open>One sink for a topic\<close>

text \<open>
  C7. Let a first message of a configured topic be accepted and processed, let any
  messages follow without an exception, and let a second message of the same topic come.
  For a \<open>csv\<close> topic the entry of \<^verbatim>\<open>csv_writers\<close> that the first message left is still
  there, and the second message makes no call but rows written to the file of that
  entry. For a \<open>dir_of_imgs\<close> topic the entry of \<^verbatim>\<open>img_writers\<close> is still there, and the
  second message makes no call but images saved in the directory of the topic. In both
  cases the second message changes neither sink table and makes no directory, opens no
  file and writes no header.
\<close>

theorem sink_reused:
  assumes "filter (\<lambda>topic_info. rosbag_topic topic_info = topic) data_schema = topic_config # others"
    and "topic_msg_counts st topic = Some c"
    and "should_keep c (start_idx topic_config) (end_idx topic_config) (throttle_rate topic_config)
           = Inr True"
    and "process_msg H data_schema out bag_name st (topic, msg1, time_stamp1) = (None, st1, calls1)"
    and "read_messages H data_schema out bag_name st1 entries = (None, st2, calls2)"
    and "process_msg H data_schema out bag_name st2 (topic, msg2, time_stamp2) = (r, st3, calls3)"
  shows "(output_type topic_config = ''csv'' \<longrightarrow>
           (\<exists>w. map_of (csv_writers st1) topic = Some w \<and> map_of (csv_writers st2) topic = Some w
                \<and> (\<forall>c \<in> set calls3. \<exists>cells. c = WriteRow (csv_file w) cells)))
       \<and> (output_type topic_config = ''dir_of_imgs'' \<longrightarrow>
           (\<exists>iw. map_of (img_writers st1) topic = Some iw \<and> map_of (img_writers st2) topic = Some iw
                \<and> (\<forall>c \<in> set calls3. \<exists>i img img_metadata.
                      c = SaveImg (img_path out bag_name topic_config i) img img_metadata)))
       \<and> (output_type topic_config = ''csv'' \<or> output_type topic_config = ''dir_of_imgs'' \<longrightarrow>
            csv_writers st3 = csv_writers st2 \<and> img_writers st3 = img_writers st2
            \<and> opened st3 = opened st2 \<and> (\<forall>c \<in> set calls3. \<not> creates_sink c))"
proof -
  note has = accepted_has_sink [OF assms(1-4)]
  have csv: "\<exists>w. map_of (csv_writers st1) topic = Some w \<and> map_of (csv_writers st2) topic = Some w
                \<and> (\<forall>c \<in> set calls3. \<exists>cells. c = WriteRow (csv_file w) cells)
                \<and> csv_writers st3 = csv_writers st2 \<and> img_writers st3 = img_writers st2
                \<and> opened st3 = opened st2"
    if k: "output_type topic_config = ''csv''"
  proof -
    obtain w where w1: "map_of (csv_writers st1) topic = Some w"
      using has k by auto
    have w2: "map_of (csv_writers st2) topic = Some w"
      using read_messages_keeps [OF assms(5), of topic w] w1 by simp
    show ?thesis
      using with_sink(1) [OF assms(1) assms(6) k w2] w1 w2 by simp
  qed
  have img: "\<exists>iw. map_of (img_writers st1) topic = Some iw \<and> map_of (img_writers st2) topic = Some iw
                \<and> (\<forall>c \<in> set calls3. \<exists>i img img_metadata.
                      c = SaveImg (img_path out bag_name topic_config i) img img_metadata)
                \<and> csv_writers st3 = csv_writers st2 \<and> img_writers st3 = img_writers st2
                \<and> opened st3 = opened st2"
    if k: "output_type topic_config = ''dir_of_imgs''"
  proof -
    obtain iw where w1: "map_of (img_writers st1) topic = Some iw"
      using has k by auto
    have w2: "map_of (img_writers st2) topic = Some iw"
      using read_messages_keeps [OF assms(5), of topic _ iw] w1 by simp
    show ?thesis
      using with_sink(2) [OF assms(1) assms(6) k w2] w1 w2 by simp
  qed
  have c1: "output_type topic_config = ''csv'' \<longrightarrow>
           (\<exists>w. map_of (csv_writers st1) topic = Some w \<and> map_of (csv_writers st2) topic = Some w
                \<and> (\<forall>c \<in> set calls3. \<exists>cells. c = WriteRow (csv_file w) cells))"
    using csv by blast
  have c2: "output_type topic_config = ''dir_of_imgs'' \<longrightarrow>
           (\<exists>iw. map_of (img_writers st1) topic = Some iw \<and> map_of (img_writers st2) topic = Some iw
                \<and> (\<forall>c \<in> set calls3. \<exists>i img img_metadata.
                      c = SaveImg (img_path out bag_name topic_config i) img img_metadata))"
    using img by blast
  have c3: "output_type topic_config = ''csv'' \<or> output_type topic_config = ''dir_of_imgs'' \<longrightarrow>
            csv_writers st3 = csv_writers st2 \<and> img_writers st3 = img_writers st2
            \<and> opened st3 = opened st2 \<and> (\<forall>c \<in> set calls3. \<not> creates_sink c)"
  proof (intro impI, elim disjE)
    assume k: "output_type topic_config = ''csv''"
    from csv [OF k] show "csv_writers st3 = csv_writers st2 \<and> img_writers st3 = img_writers st2
            \<and> opened st3 = opened st2 \<and> (\<forall>c \<in> set calls3. \<not> creates_sink c)"
      by fastforce
  next
    assume k: "output_type topic_config = ''dir_of_imgs''"
    from img [OF k] show "csv_writers st3 = csv_writers st2 \<and> img_writers st3 = img_writers st2
            \<and> opened st3 = opened st2 \<and> (\<forall>c \<in> set calls3. \<not> creates_sink c)"
      by fastforce
  qed
  show ?thesis using c1 c2 c3 by blast
qed

theorem sink_reused_witness:
  "process_msg ex_handler [infer_end_idx ex_csv_topic] ''out'' ''run1''
      (init_state [infer_end_idx ex_csv_topic] 0)
      (''/cmd'', \<lparr>ros_type = ''Twist'', body = ''v''\<rparr>, 0)
     = (None, ex_sink_state,
        [Mkdir ''out/run1'', Open_w 0 ''out/run1/cmd.csv'', WriteHeader 0 [''stamp'', ''vx''],
         WriteRow 0 [''0'', ''v'']])
   \<and> process_msg ex_handler [infer_end_idx ex_csv_topic] ''out'' ''run1''
        (bookkeeping ''/tf'' ex_sink_state) (''/cmd'', \<lparr>ros_type = ''Twist'', body = ''w''\<rparr>, 2)
     = (None, bookkeeping ''/cmd'' (bookkeeping ''/tf'' ex_sink_state), [WriteRow 0 [''2'', ''w'']])
   \<and> csv_writers (bookkeeping ''/cmd'' (bookkeeping ''/tf'' ex_sink_state))
       = csv_writers (bookkeeping ''/tf'' ex_sink_state)
   \<and> map_of (csv_writers (bookkeeping ''/tf'' ex_sink_state)) ''/cmd''
       = map_of (csv_writers ex_sink_state) ''/cmd''"
proof -
  have h1: "filter (\<lambda>topic_info. rosbag_topic topic_info = ''/cmd'') [infer_end_idx ex_csv_topic]
              = infer_end_idx ex_csv_topic # []"
    by (simp add: infer_end_idx_def ex_csv_topic_def)
  have h2: "topic_msg_counts (init_state [infer_end_idx ex_csv_topic] 0) ''/cmd'' = Some 0"
    by (simp add: init_state_def rosbag_topics_def infer_end_idx_def ex_csv_topic_def)
  have h3: "should_keep 0 (start_idx (infer_end_idx ex_csv_topic))
              (end_idx (infer_end_idx ex_csv_topic)) (throttle_rate (infer_end_idx ex_csv_topic))
            = Inr True"
    by (simp add: should_keep_def infer_end_idx_def ex_csv_topic_def)
  have h4: "process_msg ex_handler [infer_end_idx ex_csv_topic] ''out'' ''run1''
      (init_state [infer_end_idx ex_csv_topic] 0)
      (''/cmd'', \<lparr>ros_type = ''Twist'', body = ''v''\<rparr>, 0)
     = (None, ex_sink_state,
        [Mkdir ''out/run1'', Open_w 0 ''out/run1/cmd.csv'', WriteHeader 0 [''stamp'', ''vx''],
         WriteRow 0 [''0'', ''v'']])"
    by (simp add: eval_defs ex_sink_state_def)
  have h5: "read_messages ex_handler [infer_end_idx ex_csv_topic] ''out'' ''run1'' ex_sink_state
      [(''/tf'', \<lparr>ros_type = ''TF'', body = ''x''\<rparr>, 1)]
     = (None, bookkeeping ''/tf'' ex_sink_state, [])"
    by (simp add: process_msg_def rosbag_topics_def infer_end_idx_def ex_csv_topic_def)
  have h6: "process_msg ex_handler [infer_end_idx ex_csv_topic] ''out'' ''run1''
        (bookkeeping ''/tf'' ex_sink_state) (''/cmd'', \<lparr>ros_type = ''Twist'', body = ''w''\<rparr>, 2)
     = (None, bookkeeping ''/cmd'' (bookkeeping ''/tf'' ex_sink_state), [WriteRow 0 [''2'', ''w'']])"
    by (simp add: process_msg_def rosbag_topics_def should_keep_def bookkeeping_def
        write_csv_def writerow_def dict_to_list_def ex_handler_def ex_sink_state_def
        infer_end_idx_def ex_csv_topic_def str_nat.simps)
  show ?thesis
    using sink_reused [OF h1 h2 h3 h4 h5 h6] h4 h6
    by (simp add: infer_end_idx_def ex_csv_topic_def)
qed

subsection \<open>Counters and image names along the loop\<close>

lemma saved_imgs_Nil [simp]: "saved_imgs [] = []"
  by (simp add: saved_imgs_def)

lemma saved_imgs_Cons [simp]:
  "saved_imgs (c # cs) = (case c of SaveImg p img m \<Rightarrow> [p] | _ \<Rightarrow> []) @ saved_imgs cs"
  by (simp add: saved_imgs_def)

lemma saved_imgs_append [simp]: "saved_imgs (xs @ ys) = saved_imgs xs @ saved_imgs ys"
  by (simp add: saved_imgs_def)

lemma write_csv_counts:
  "write_csv H out bag_name topic_config entry st = (r, st1, calls) \<Longrightarrow>
     topic_msg_counts st1 = topic_msg_counts st \<and> saved_imgs calls = []"
  by (auto simp: write_csv_def create_csv_writer_def writerow_def Let_def
      split: prod.splits option.splits sum.splits if_splits)

lemma write_img_counts:
  "write_img H out bag_name topic_config (topic, msg, time_stamp) st = (None, st1, calls) \<Longrightarrow>
     topic_msg_counts st1 = topic_msg_counts st
     \<and> (\<forall>c. topic_msg_counts st topic = Some c \<longrightarrow>
            saved_imgs calls = [img_path out bag_name topic_config c])"
  by (auto simp: write_img_def Let_def
      split: prod.splits option.splits sum.splits if_splits)

lemma unconfigured_filter:
  "topic \<notin> set (rosbag_topics data_schema) \<Longrightarrow>
     filter (\<lambda>topic_info. rosbag_topic topic_info = topic) data_schema = []"
  by (auto simp: rosbag_topics_def filter_empty_conv)

lemma bookkeeping_counts:
  "topic_msg_counts st topic = Some c \<Longrightarrow>
     topic_msg_counts (bookkeeping topic st) = (topic_msg_counts st)(topic \<mapsto> c + 1)"
  by (simp add: bookkeeping_def)

lemma process_msg_cursor:
  assumes inv: "\<forall>t \<in> set (rosbag_topics data_schema). topic_msg_counts st t = Some (cursor t)"
    and p: "process_msg H data_schema out bag_name st (topic, msg, time_stamp) = (None, st1, calls)"
  shows "(\<forall>t \<in> set (rosbag_topics data_schema).
            topic_msg_counts st1 t = Some ((cursor(topic := cursor topic + 1)) t))
       \<and> saved_imgs calls =
           (case filter (\<lambda>topic_info. rosbag_topic topic_info = topic) data_schema of
              [] \<Rightarrow> []
            | topic_config # _ \<Rightarrow>
                if output_type topic_config = ''dir_of_imgs''
                   \<and> should_keep (cursor topic) (start_idx topic_config) (end_idx topic_config)
                        (throttle_rate topic_config) = Inr True
                then [img_path out bag_name topic_config (cursor topic)]
                else [])"
proof (cases "topic \<in> set (rosbag_topics data_schema)")
  case False
  have "st1 = bookkeeping topic st" "calls = []"
    using p False by (simp_all add: process_msg_def)
  then show ?thesis
    using inv False unconfigured_filter [OF False] by (auto simp: bookkeeping_def)
next
  case True
  then have c: "topic_msg_counts st topic = Some (cursor topic)"
    using inv by simp
  obtain topic_config others where
    f: "filter (\<lambda>topic_info. rosbag_topic topic_info = topic) data_schema = topic_config # others"
    using True by (cases "filter (\<lambda>topic_info. rosbag_topic topic_info = topic) data_schema")
      (auto simp: rosbag_topics_def filter_empty_conv)
  note pc = p [unfolded process_msg_configured [OF f]]
  have step: "topic_msg_counts st1 = (topic_msg_counts st)(topic \<mapsto> cursor topic + 1)
      \<and> saved_imgs calls =
          (if output_type topic_config = ''dir_of_imgs''
                   \<and> should_keep (cursor topic) (start_idx topic_config) (end_idx topic_config)
                        (throttle_rate topic_config) = Inr True
           then [img_path out bag_name topic_config (cursor topic)] else [])"
  proof (cases "should_keep (cursor topic) (start_idx topic_config) (end_idx topic_config)
                        (throttle_rate topic_config)")
    case (Inl e)
    then show ?thesis using pc c by simp
  next
    case (Inr keep)
    show ?thesis
    proof (cases keep)
      case False
      then show ?thesis using pc c Inr by (auto simp: bookkeeping_counts)
    next
      case k: True
      consider (csv) "output_type topic_config = ''csv''"
        | (img) "output_type topic_config \<noteq> ''csv''" "output_type topic_config = ''dir_of_imgs''"
        | (other) "output_type topic_config \<noteq> ''csv''" "output_type topic_config \<noteq> ''dir_of_imgs''"
        by blast
      then show ?thesis
      proof cases
        case csv
        obtain r0 st0 calls0 where
          w: "write_csv H out bag_name topic_config (topic, msg, time_stamp) st = (r0, st0, calls0)"
          by (cases "write_csv H out bag_name topic_config (topic, msg, time_stamp) st") auto
        have "r0 = None \<and> st1 = bookkeeping topic st0 \<and> calls = calls0"
          using pc c Inr k csv w by (cases r0) auto
        then show ?thesis
          using write_csv_counts [OF w] c csv by (simp add: bookkeeping_counts)
      next
        case img
        obtain r0 st0 calls0 where
          w: "write_img H out bag_name topic_config (topic, msg, time_stamp) st = (r0, st0, calls0)"
          by (cases "write_img H out bag_name topic_config (topic, msg, time_stamp) st") auto
        have e: "r0 = None \<and> st1 = bookkeeping topic st0 \<and> calls = calls0"
          using pc c Inr k img w by (cases r0) auto
        then have w': "write_img H out bag_name topic_config (topic, msg, time_stamp) st
                         = (None, st0, calls0)"
          using w by simp
        show ?thesis
          using write_img_counts [OF w'] e c img Inr k by (simp add: bookkeeping_counts)
      next
        case other
        then show ?thesis using pc c Inr k by (auto simp: bookkeeping_counts)
      qed
    qed
  qed
  show ?thesis
    using step inv f by auto
qed

lemma read_messages_cursor:
  "\<forall>t \<in> set (rosbag_topics data_schema). topic_msg_counts st t = Some (cursor t) \<Longrightarrow>
   read_messages H data_schema out bag_name st entries = (None, st1, calls) \<Longrightarrow>
     (\<forall>t \<in> set (rosbag_topics data_schema).
         topic_msg_counts st1 t = Some (cursor t + messages_on t entries))
     \<and> saved_imgs calls = image_names data_schema out bag_name cursor entries"
proof (induction entries arbitrary: st cursor calls)
  case Nil
  then show ?case by (simp add: messages_on_def)
next
  case (Cons entry entries)
  obtain topic msg time_stamp where e: "entry = (topic, msg, time_stamp)"
    by (cases entry) auto
  obtain r0 st0 calls0 where
    p: "process_msg H data_schema out bag_name st (topic, msg, time_stamp) = (r0, st0, calls0)"
    by (cases "process_msg H data_schema out bag_name st (topic, msg, time_stamp)") auto
  have r0: "r0 = None"
    using Cons.prems(2) p e by (cases r0) auto
  obtain calls2 where
    q: "read_messages H data_schema out bag_name st0 entries = (None, st1, calls2)"
    and cs: "calls = calls0 @ calls2"
    using Cons.prems(2) p e r0
    by (cases "read_messages H data_schema out bag_name st0 entries") auto
  note s = process_msg_cursor [OF Cons.prems(1) p [unfolded r0]]
  note ih = Cons.IH [OF s [THEN conjunct1] q]
  have m: "\<And>t. (cursor(topic := cursor topic + 1)) t + messages_on t entries
             = cursor t + messages_on t (entry # entries)"
    using e by (simp add: messages_on_def)
  have a: "\<forall>t \<in> set (rosbag_topics data_schema).
             topic_msg_counts st1 t = Some (cursor t + messages_on t (entry # entries))"
    using ih [THEN conjunct1] by (simp only: m)
  have b: "saved_imgs calls = image_names data_schema out bag_name cursor (entry # entries)"
    using ih [THEN conjunct2] s [THEN conjunct2] cs e by (simp del: fun_upd_apply)
  show ?case
    using a b by blast
qed

subsection \<open>Cursors\<close>

text \<open>
  C5. When the messages of a bag are read without an exception, every configured topic
  starts with the counter 0 and ends with the number of its messages in the bag, sampled
  or not; and the image files saved, in order, are those of \<open>image_names\<close>: for each
  accepted message of an image topic the file named by the number of messages seen on
  that topic before it.
\<close>

theorem cursor_names_images:
  assumes "read_messages H data_schema out bag_name (init_state data_schema fd) entries
             = (None, st1, calls)"
  shows "(\<forall>t \<in> set (rosbag_topics data_schema).
            topic_msg_counts (init_state data_schema fd) t = Some 0
            \<and> topic_msg_counts st1 t = Some (messages_on t entries))
       \<and> saved_imgs calls = image_names data_schema out bag_name (\<lambda>topic. 0) entries"
proof -
  have i: "\<forall>t \<in> set (rosbag_topics data_schema).
            topic_msg_counts (init_state data_schema fd) t = Some ((\<lambda>topic. 0) t)"
    by (auto simp: init_state_def map_of_map_restrict restrict_map_def)
  show ?thesis
    using read_messages_cursor [OF i assms] i by simp
qed

theorem cursor_names_images_witness:
  "fst (read_messages ex_handler ex_schema ''out'' ''run1'' (init_state ex_schema 0) ex_interleaved)
     = None
   \<and> saved_imgs (snd (snd (read_messages ex_handler ex_schema ''out'' ''run1''
        (init_state ex_schema 0) ex_interleaved)))
     = [''out/run1/cam/1.png'', ''out/run1/cam/2.png'', ''out/run1/cam/3.png'',
        ''out/run1/cam/4.png'']
   \<and> topic_msg_counts (fst (snd (read_messages ex_handler ex_schema ''out'' ''run1''
        (init_state ex_schema 0) ex_interleaved))) ''/cam'' = Some 6
   \<and> topic_msg_counts (fst (snd (read_messages ex_handler ex_schema ''out'' ''run1''
        (init_state ex_schema 0) ex_interleaved))) ''/cmd'' = Some 6"
proof -
  have r: "fst (read_messages ex_handler ex_schema ''out'' ''run1'' (init_state ex_schema 0)
             ex_interleaved) = None"
    by (simp add: eval_defs ex_schema_def ex_interleaved_def write_img_def img_dir_def img_path_def)
  then have h: "read_messages ex_handler ex_schema ''out'' ''run1'' (init_state ex_schema 0)
             ex_interleaved
       = (None,
          fst (snd (read_messages ex_handler ex_schema ''out'' ''run1'' (init_state ex_schema 0)
             ex_interleaved)),
          snd (snd (read_messages ex_handler ex_schema ''out'' ''run1'' (init_state ex_schema 0)
             ex_interleaved)))"
    by (metis prod.collapse)
  have n: "image_names ex_schema ''out'' ''run1'' (\<lambda>topic. 0) ex_interleaved
     = [''out/run1/cam/1.png'', ''out/run1/cam/2.png'', ''out/run1/cam/3.png'',
        ''out/run1/cam/4.png'']"
    by (simp add: ex_schema_def ex_interleaved_def infer_end_idx_def should_keep_def
        img_path_def str_int_def str_nat.simps)
  have m: "messages_on ''/cam'' ex_interleaved = 6" "messages_on ''/cmd'' ex_interleaved = 6"
    by (simp_all add: messages_on_def ex_interleaved_def)
  have t: "''/cam'' \<in> set (rosbag_topics ex_schema)" "''/cmd'' \<in> set (rosbag_topics ex_schema)"
    by (simp_all add: rosbag_topics_def ex_schema_def infer_end_idx_def)
  show ?thesis
    using cursor_names_images [OF h] r n m t by simp
qed

subsection \<open>Files opened and files closed\<close>

lemma opened_files_simps [simp]:
  "opened_files [] = []"
  "opened_files (c # cs) = (case c of Open_w h p \<Rightarrow> [h] | _ \<Rightarrow> []) @ opened_files cs"
  "opened_files (xs @ ys) = opened_files xs @ opened_files ys"
  by (simp_all add: opened_files_def)

lemma closed_files_simps [simp]:
  "closed_files [] = []"
  "closed_files (c # cs) = (case c of Close h \<Rightarrow> [h] | _ \<Rightarrow> []) @ closed_files cs"
  "closed_files (xs @ ys) = closed_files xs @ closed_files ys"
  by (simp_all add: closed_files_def)

lemma update_new_key:
  "map_of al k = None \<Longrightarrow> AList.update k v al = al @ [(k, v)]"
  by (induction al) (auto split: if_splits)

lemma write_csv_files:
  assumes "registered fd st"
    and "write_csv H out bag_name topic_config entry st = (r, st1, calls)"
  shows "closed_files calls = [] \<and> opened_files calls = [opened st..<opened st1]
       \<and> opened st \<le> opened st1
       \<and> (registered fd st1
           \<or> r \<noteq> None \<and> csv_writers st1 = csv_writers st \<and> opened st1 = Suc (opened st))"
  using assms
  by (auto simp: write_csv_def create_csv_writer_def writerow_def Let_def registered_def
        update_new_key
      split: prod.splits option.splits sum.splits if_splits)

lemma write_img_files:
  assumes "registered fd st"
    and "write_img H out bag_name topic_config entry st = (r, st1, calls)"
  shows "closed_files calls = [] \<and> opened_files calls = [opened st..<opened st1]
       \<and> opened st \<le> opened st1 \<and> registered fd st1"
  using assms
  by (auto simp: write_img_def Let_def registered_def
      split: prod.splits option.splits sum.splits if_splits)

lemma registered_bookkeeping [simp]: "registered fd (bookkeeping topic st) = registered fd st"
  by (simp add: registered_def)

lemma process_msg_files:
  assumes "registered fd st"
    and "process_msg H data_schema out bag_name st entry = (r, st1, calls)"
  shows "closed_files calls = [] \<and> opened_files calls = [opened st..<opened st1]
       \<and> opened st \<le> opened st1
       \<and> (registered fd st1
           \<or> r \<noteq> None \<and> csv_writers st1 = csv_writers st \<and> opened st1 = Suc (opened st))
       \<and> (r = None \<longrightarrow> registered fd st1)"
  using process_msg_cases [OF assms(2)]
proof (elim disjE exE conjE)
  fix topic_config st0
  assume w: "write_csv H out bag_name topic_config entry st = (r, st0, calls)"
    and s: "if r = None then st1 = bookkeeping (fst entry) st0 else st1 = st0"
  show ?thesis
    using write_csv_files [OF assms(1) w] s by (cases r) auto
next
  fix topic_config st0
  assume w: "write_img H out bag_name topic_config entry st = (r, st0, calls)"
    and s: "if r = None then st1 = bookkeeping (fst entry) st0 else st1 = st0"
  show ?thesis
    using write_img_files [OF assms(1) w] s by (cases r) auto
qed (use assms(1) in auto)

lemma read_messages_files:
  "registered fd st \<Longrightarrow>
   read_messages H data_schema out bag_name st entries = (r, st1, calls) \<Longrightarrow>
     closed_files calls = [] \<and> opened_files calls = [opened st..<opened st1]
     \<and> opened st \<le> opened st1
     \<and> (registered fd st1
         \<or> r \<noteq> None \<and> map (\<lambda>(key, val). csv_file val) (csv_writers st1) = [fd..<opened st1 - 1]
            \<and> fd < opened st1)
     \<and> (r = None \<longrightarrow> registered fd st1)"
proof (induction entries arbitrary: st r st1 calls)
  case Nil
  then show ?case by (auto simp: registered_def)
next
  case (Cons entry entries)
  obtain r0 st0 calls0 where
    p: "process_msg H data_schema out bag_name st entry = (r0, st0, calls0)"
    by (cases "process_msg H data_schema out bag_name st entry") auto
  note f = process_msg_files [OF Cons.prems(1) p]
  show ?case
  proof (cases r0)
    case (Some e)
    then have "r = r0" "st1 = st0" "calls = calls0"
      using Cons.prems(2) p by auto
    then show ?thesis
      using f Some Cons.prems(1) by (auto simp: registered_def)
  next
    case None
    obtain r2 st2 calls2 where
      q: "read_messages H data_schema out bag_name st0 entries = (r2, st2, calls2)"
      by (cases "read_messages H data_schema out bag_name st0 entries") auto
    have e: "r = r2" "st1 = st2" "calls = calls0 @ calls2"
      using Cons.prems(2) p q None by auto
    have r0: "registered fd st0" using f None by simp
    have le: "opened st \<le> opened st0"
      using f by simp
    note ih = Cons.IH [OF r0 q]
    have "[opened st..<opened st0] @ [opened st0..<opened st2] = [opened st..<opened st2]"
      using le ih by (metis le_Suc_ex upt_add_eq_append)
    then show ?thesis
      using ih f e le by auto
  qed
qed

lemma closed_files_map_Close:
  "closed_files (map (\<lambda>(key, val). Close (csv_file val)) ws) = map (\<lambda>(key, val). csv_file val) ws"
  by (induction ws) (auto split: prod.splits)

lemma closed_files_close_all [simp]:
  "closed_files (close_all st) = map (\<lambda>(key, val). csv_file val) (csv_writers st)"
  by (simp add: close_all_def closed_files_map_Close)

lemma opened_files_map_Close:
  "opened_files (map (\<lambda>(key, val). Close (csv_file val)) ws) = []"
  by (induction ws) (auto split: prod.splits)

lemma opened_files_close_all [simp]: "opened_files (close_all st) = []"
  by (simp add: close_all_def opened_files_map_Close)

lemma registered_init [simp]: "registered fd (init_state data_schema fd)"
  by (simp add: registered_def init_state_def)

text \<open>
  What the \<^verbatim>\<open>finally\<close> block does achieve: the files opened by \<^verbatim>\<open>extract_single\<close> are
  numbered from \<open>fd\<close> on, no file is closed twice, and every file opened is closed, except
  that when an exception leaves the function the file opened last may stay open. When no
  exception is raised every file is closed exactly once.
\<close>

lemma files_closed_once:
  assumes "extract_single H bags rosbag_abs_path data_schema out fd = (r, fd1, calls)"
  shows "opened_files calls = [fd..<fd1] \<and> distinct (closed_files calls)
       \<and> (closed_files calls = opened_files calls
           \<or> r \<noteq> None \<and> opened_files calls \<noteq> []
              \<and> closed_files calls = butlast (opened_files calls))
       \<and> (r = None \<longrightarrow> closed_files calls = opened_files calls)"
proof (cases "bags rosbag_abs_path")
  case (Inl e)
  then show ?thesis
    using assms by (auto simp: extract_single_def Let_def close_all_def init_state_def)
next
  case (Inr entries)
  obtain r0 st0 calls0 where
    q: "read_messages H data_schema out (bag_name_of rosbag_abs_path)
          (init_state data_schema fd) entries = (r0, st0, calls0)"
    by (cases "read_messages H data_schema out (bag_name_of rosbag_abs_path)
          (init_state data_schema fd) entries") auto
  have e: "r = r0" "fd1 = opened st0"
     "calls = [Open_bag rosbag_abs_path] @ calls0 @ [Close_bag rosbag_abs_path] @ close_all st0"
    using assms Inr q by (auto simp: extract_single_def Let_def)
  note f = read_messages_files [OF registered_init q]
  have o: "opened_files calls = [fd..<fd1]"
    using e f by (simp add: init_state_def)
  have c: "closed_files calls = map (\<lambda>(key, val). csv_file val) (csv_writers st0)"
    using e f by simp
  have b: "fd < n \<Longrightarrow> butlast [fd..<n] = [fd..<n - 1]" for n
    by (cases n) auto
  from f have "registered fd st0
         \<or> r \<noteq> None \<and> map (\<lambda>(key, val). csv_file val) (csv_writers st0) = [fd..<opened st0 - 1]
            \<and> fd < opened st0"
    using e by simp
  then show ?thesis
  proof
    assume "registered fd st0"
    then show ?thesis using o c e by (auto simp: registered_def)
  next
    assume a: "r \<noteq> None \<and> map (\<lambda>(key, val). csv_file val) (csv_writers st0) = [fd..<opened st0 - 1]
            \<and> fd < opened st0"
    then show ?thesis using o c e b [of "opened st0"] by auto
  qed
qed

subsection \<open>A file that stays open\<close>

text \<open>
  C1, at an input where the code departs from it. The first accepted message of a \<open>csv\<close>
  topic has a type for which \<^verbatim>\<open>get_msg_cols\<close> raises. Line 97 has opened the file by
  then, line 102 has not yet entered it in \<^verbatim>\<open>csv_writers\<close>, and the \<^verbatim>\<open>finally\<close> block
  closes only the files of \<^verbatim>\<open>csv_writers\<close>: file 0 is opened and never closed.
\<close>

theorem leaked_file_handle:
  "get_msg_cols ex_handler ''Pose'' = Inl (HandlerError ''Pose'')
   \<and> extract_single ex_handler (\<lambda>p. Inr ex_bag_unknown_type) ''/data/run1.bag''
        [infer_end_idx ex_csv_topic] ''out'' 0
      = (Some (HandlerError ''Pose''), 1,
         [Open_bag ''/data/run1.bag'', Mkdir ''out/run1'', Open_w 0 ''out/run1/cmd.csv'',
          Close_bag ''/data/run1.bag''])
   \<and> opened_files (snd (snd (extract_single ex_handler (\<lambda>p. Inr ex_bag_unknown_type)
        ''/data/run1.bag'' [infer_end_idx ex_csv_topic] ''out'' 0))) = [0]
   \<and> closed_files (snd (snd (extract_single ex_handler (\<lambda>p. Inr ex_bag_unknown_type)
        ''/data/run1.bag'' [infer_end_idx ex_csv_topic] ''out'' 0))) = []"
  by (simp add: eval_defs ex_bag_unknown_type_def opened_files_def closed_files_def)

end
